theory Spec2Isabelle
  imports Complex_Main "HOL-Library.Multiset"
begin

section \<open>Python values the model needs\<close>

text \<open>
  Exceptions are values. Only the exception classes the source or the built-in
  functions it calls distinguish are kept apart.
\<close>

datatype py_error =
  ValueError | TypeError | OverflowError | AttributeError | RequestException | OtherException

subsection \<open>Strings\<close>

text \<open>
  Strings are lists of characters with code points below 256. \<open>str.lower\<close> maps
  the capital letters among them (\<open>A\<close> to \<open>Z\<close>, and U+00C0 to U+00DE without the
  multiplication sign U+00D7) to the letter 32 code points up; \<open>str.isspace\<close>
  holds of TAB, LF, VT, FF, CR, FS, GS, RS, US, the space, U+0085 and U+00A0.
\<close>

definition upper_letters :: string where
  "upper_letters = ''ABCDEFGHIJKLMNOPQRSTUVWXYZ'' @
    [CHR 0xC0, CHR 0xC1, CHR 0xC2, CHR 0xC3, CHR 0xC4, CHR 0xC5, CHR 0xC6, CHR 0xC7,
     CHR 0xC8, CHR 0xC9, CHR 0xCA, CHR 0xCB, CHR 0xCC, CHR 0xCD, CHR 0xCE, CHR 0xCF,
     CHR 0xD0, CHR 0xD1, CHR 0xD2, CHR 0xD3, CHR 0xD4, CHR 0xD5, CHR 0xD6, CHR 0xD8,
     CHR 0xD9, CHR 0xDA, CHR 0xDB, CHR 0xDC, CHR 0xDD, CHR 0xDE]"

definition lower_letters :: string where
  "lower_letters = ''abcdefghijklmnopqrstuvwxyz'' @
    [CHR 0xE0, CHR 0xE1, CHR 0xE2, CHR 0xE3, CHR 0xE4, CHR 0xE5, CHR 0xE6, CHR 0xE7,
     CHR 0xE8, CHR 0xE9, CHR 0xEA, CHR 0xEB, CHR 0xEC, CHR 0xED, CHR 0xEE, CHR 0xEF,
     CHR 0xF0, CHR 0xF1, CHR 0xF2, CHR 0xF3, CHR 0xF4, CHR 0xF5, CHR 0xF6, CHR 0xF8,
     CHR 0xF9, CHR 0xFA, CHR 0xFB, CHR 0xFC, CHR 0xFD, CHR 0xFE]"


definition lower_char :: "char \<Rightarrow> char" where
  "lower_char c = (case map_of (zip upper_letters lower_letters) c of Some d \<Rightarrow> d | None \<Rightarrow> c)"

definition lower :: "string \<Rightarrow> string" where
  "lower s = map lower_char s"

definition is_space :: "char \<Rightarrow> bool" where
  "is_space c = (c \<in> set [CHR 0x09, CHR 0x0A, CHR 0x0B, CHR 0x0C, CHR 0x0D,
                            CHR 0x1C, CHR 0x1D, CHR 0x1E, CHR 0x1F, CHR '' '',
                            CHR 0x85, CHR 0xA0])"

definition strip :: "string \<Rightarrow> string" where
  "strip s = rev (dropWhile is_space (rev (dropWhile is_space s)))"


text \<open>\<open>sep.join(xs)\<close>.\<close>

fun join :: "string \<Rightarrow> string list \<Rightarrow> string" where
  "join sep [] = []"
| "join sep [x] = x"
| "join sep (x # y # ys) = x @ sep @ join sep (y # ys)"

text \<open>
  \<open>s.split(sep)\<close> for a non-empty separator: the pieces between the
  non-overlapping occurrences of \<open>sep\<close>, found from the left. \<open>cur\<close> is the
  piece being read.
\<close>

function split_from :: "string \<Rightarrow> string \<Rightarrow> string \<Rightarrow> string list" where
  "split_from sep cur [] = [cur]"
| "split_from sep cur (c # cs) =
     (if sep \<noteq> [] \<and> take (length sep) (c # cs) = sep
      then cur # split_from sep [] (drop (length sep) (c # cs))
      else split_from sep (cur @ [c]) cs)"
  by pat_completeness auto
termination
  by (relation "measure (\<lambda>(sep, cur, s). length s)") auto

definition split :: "string \<Rightarrow> string \<Rightarrow> string list" where
  "split s sep = split_from sep [] s"


definition trimmed :: "string \<Rightarrow> bool" where
  "trimmed s = (strip s = s)"

subsection \<open>Sets\<close>

text \<open>
  Python iterates a set in an order that follows from the hashes of its elements
  and is fixed by no rule of the language. Where the source turns a set into a
  sequence, the order is a parameter of the model: a function from the set to the
  list of its elements. \<open>iterates\<close> says that the function lists a given set,
  each element once.
\<close>

type_synonym set_iteration = "string set \<Rightarrow> string list"

definition iterates :: "set_iteration \<Rightarrow> string set \<Rightarrow> bool" where
  "iterates iteration S = (distinct (iteration S) \<and> set (iteration S) = S)"


section \<open>Skill extraction (\<open>main.py\<close>, \<open>extract_skills\<close>)\<close>

definition COMMON_TECH_SKILLS :: "string list" where
  "COMMON_TECH_SKILLS =
    [''python'', ''java'', ''javascript'', ''html'', ''css'', ''react'', ''angular'', ''vue'',
     ''node.js'', ''express'', ''django'', ''flask'', ''spring'', ''hibernate'', ''sql'',
     ''mysql'', ''postgresql'', ''mongodb'', ''nosql'', ''aws'', ''azure'', ''gcp'',
     ''docker'', ''kubernetes'', ''jenkins'', ''git'', ''github'', ''gitlab'', ''ci/cd'',
     ''agile'', ''scrum'', ''jira'', ''confluence'', ''rest api'', ''graphql'', ''microservices'',
     ''machine learning'', ''artificial intelligence'', ''data science'', ''big data'',
     ''hadoop'', ''spark'', ''tensorflow'', ''pytorch'', ''keras'', ''nlp'', ''computer vision'',
     ''devops'', ''sre'', ''cloud computing'', ''serverless'', ''linux'', ''unix'', ''bash'',
     ''powershell'', ''c#'', ''c++'', ''ruby'', ''php'', ''swift'', ''kotlin'', ''go'', ''rust'',
     ''typescript'', ''jquery'', ''bootstrap'', ''sass'', ''less'', ''webpack'', ''babel'',
     ''redux'', ''vuex'', ''next.js'', ''nuxt.js'', ''gatsby'', ''rest'',
     ''oauth'', ''jwt'', ''authentication'', ''authorization'', ''security'', ''encryption'',
     ''testing'', ''unit testing'', ''integration testing'', ''e2e testing'', ''jest'',
     ''mocha'', ''chai'', ''selenium'', ''cypress'', ''puppeteer'', ''responsive design'',
     ''mobile development'', ''ios'', ''android'', ''react native'', ''flutter'', ''xamarin'']"







section \<open>Paginated job fetcher (\<open>main.py\<close>, \<open>fetch_paginated_jobs\<close>)\<close>

text \<open>
  The query parameters are a Python dictionary, passed by reference and assigned to
  inside the function. Dictionaries therefore live in a store, and the function
  receives the address \<open>p\<close> of the caller's dictionary.
\<close>

type_synonym params = "string \<rightharpoonup> string"

type_synonym address = nat

type_synonym store = "address \<Rightarrow> params"

text \<open>
  What one \<open>requests.get\<close> round trip gives the loop.
  \<^item> \<open>RequestFailed\<close>: the call or \<open>raise_for_status\<close> raises a
    \<open>RequestException\<close>, or the body is not JSON (the \<open>JSONDecodeError\<close> of
    \<open>requests\<close> 2.27 and later is a \<open>RequestException\<close>).
  \<^item> \<open>NotAnObject\<close>: the body is JSON but not an object (a list, a string, a
    number, \<open>null\<close>), so \<open>data.get\<close> raises \<open>AttributeError\<close>.
  \<^item> \<open>JobsNotIterable\<close>: the field \<open>jobs\<close> is a number other than zero or
    \<open>true\<close>, so \<open>all_jobs.extend(jobs)\<close> raises \<open>TypeError\<close>.
  \<^item> \<open>Page jobs nxt\<close>: the items \<open>extend\<close> would add for
    \<open>data.get("jobs", [])\<close> (none for a missing, null or otherwise false field),
    and \<open>data.get("nextPage")\<close>, a string or \<open>None\<close>.

  Only \<open>RequestException\<close> is caught by the loop. The external service is a
  function from the number of the request and the parameters it carries to the
  response.
\<close>

datatype 'j response = RequestFailed | NotAnObject | JobsNotIterable | Page "'j list" "string option"

type_synonym 'j api = "nat \<Rightarrow> params \<Rightarrow> 'j response"

text \<open>
  The loop state: the local variables \<open>all_jobs\<close> and \<open>next_page\<close>, the store,
  the log of the parameters each request was sent with, and the exception that left
  the function, if one did.
\<close>

record 'j fetch_state =
  all_jobs :: "'j list"
  next_page :: "string option"
  heap :: store
  sent :: "params list"
  raised :: "py_error option"

text \<open>Python truth of a value that is a string or \<open>None\<close>.\<close>

definition truthy :: "string option \<Rightarrow> bool" where
  "truthy v = (case v of None \<Rightarrow> False | Some s \<Rightarrow> s \<noteq> [])"

text \<open>\<open>if next_page: params["nextPage"] = next_page\<close>\<close>

definition inject_cursor :: "address \<Rightarrow> string option \<Rightarrow> store \<Rightarrow> store" where
  "inject_cursor p v h =
     (case v of
        None \<Rightarrow> h
      | Some c \<Rightarrow> if c \<noteq> [] then h(p := (h p)(''nextPage'' \<mapsto> c)) else h)"

text \<open>
  The \<open>for page_num in range(max_pages)\<close> loop, by recursion on the pages left.
  Each \<open>break\<close> returns the state as it stands; an exception that is not caught
  ends the loop with \<open>raised\<close> set.
\<close>

fun fetch_loop :: "'j api \<Rightarrow> address \<Rightarrow> nat \<Rightarrow> 'j fetch_state \<Rightarrow> 'j fetch_state" where
  "fetch_loop api p 0 st = st"
| "fetch_loop api p (Suc n) st =
     (let h = inject_cursor p (next_page st) (heap st);
          page_num = length (sent st);
          st1 = st\<lparr>heap := h, sent := sent st @ [h p]\<rparr>
      in case api page_num (h p) of
           RequestFailed \<Rightarrow> st1
         | NotAnObject \<Rightarrow> st1\<lparr>raised := Some AttributeError\<rparr>
         | JobsNotIterable \<Rightarrow> st1\<lparr>raised := Some TypeError\<rparr>
         | Page jobs nxt \<Rightarrow>
             if jobs = [] then st1
             else
               (let st2 = st1\<lparr>all_jobs := all_jobs st1 @ jobs, next_page := nxt\<rparr>
                in if \<not> truthy nxt then st2 else fetch_loop api p n st2))"

text \<open>
  The final state of \<open>fetch_paginated_jobs\<close>: \<open>heap\<close> is the store the caller
  is left with, and \<open>fetch_result\<close> is what the caller receives, the exception or
  the list \<open>all_jobs\<close>.
\<close>

definition fetch_paginated_jobs :: "'j api \<Rightarrow> store \<Rightarrow> address \<Rightarrow> int \<Rightarrow> 'j fetch_state" where
  "fetch_paginated_jobs api h p max_pages =
     fetch_loop api p (nat max_pages)
       \<lparr>all_jobs = [], next_page = Some [], heap = h, sent = [], raised = None\<rparr>"

definition fetch_result :: "'j fetch_state \<Rightarrow> py_error + 'j list" where
  "fetch_result st = (case raised st of Some e \<Rightarrow> Inl e | None \<Rightarrow> Inr (all_jobs st))"

text \<open>
  Reading a response: whether the loop goes on after it (jobs present and a
  non-empty cursor), the jobs it adds to the accumulator, its cursor, and the
  exception it makes the loop raise.
\<close>

definition continues :: "'j response \<Rightarrow> bool" where
  "continues r = (case r of Page jobs nxt \<Rightarrow> jobs \<noteq> [] \<and> truthy nxt | _ \<Rightarrow> False)"

definition page_jobs :: "'j response \<Rightarrow> 'j list" where
  "page_jobs r = (case r of Page jobs nxt \<Rightarrow> jobs | _ \<Rightarrow> [])"

definition cursor :: "'j response \<Rightarrow> string" where
  "cursor r = (case r of Page jobs nxt \<Rightarrow> (case nxt of None \<Rightarrow> [] | Some c \<Rightarrow> c) | _ \<Rightarrow> [])"

definition raises :: "'j response \<Rightarrow> py_error option" where
  "raises r =
     (case r of NotAnObject \<Rightarrow> Some AttributeError | JobsNotIterable \<Rightarrow> Some TypeError | _ \<Rightarrow> None)"

text \<open>
  The number of requests a run issues when the first \<open>k\<close> responses let the loop go
  on and \<open>n\<close> pages are allowed: one more than \<open>k\<close> when the budget is not
  exhausted by then.
\<close>

definition requests_made :: "nat \<Rightarrow> nat \<Rightarrow> nat" where
  "requests_made k n = (if k < n then Suc k else k)"

text \<open>
  Two scripted services. The first answers \<open>{jobs: [x], nextPage: "t1"}\<close> and then
  \<open>{jobs: [], nextPage: null}\<close>; the second serves two pages and fails from the
  third request on.
\<close>

definition mock_api :: "string api" where
  "mock_api i d = (if i = 0 then Page [''x''] (Some ''t1'') else Page [] None)"

definition failing_api :: "string api" where
  "failing_api i d = (if i = 0 then Page [''a'', ''b''] (Some ''t1'')
                      else if i = 1 then Page [''c''] (Some ''t2'') else RequestFailed)"

text \<open>A service whose second answer is a JSON list.\<close>

definition broken_api :: "string api" where
  "broken_api i d = (if i = 0 then Page [''x''] (Some ''t1'') else NotAnObject)"

section \<open>Certification finder (\<open>main.py\<close>, \<open>get_certifications\<close>)\<close>

text \<open>
  What \<open>search_coursera_for_skill\<close> reads of an anchor element: the string of its
  \<open>h3\<close> child (\<open>None\<close> without such a child or string), its \<open>aria-label\<close> and
  \<open>href\<close> attributes, and its text.
\<close>

record link =
  h3_string :: "string option"
  aria_label :: "string option"
  link_text :: string
  href :: "string option"

text \<open>
  The parsed result page as the three \<open>find_all\<close> queries of the source see it: by
  the exact class string, by a class containing \<open>CommonCard-titleLink\<close>, and by an
  \<open>href\<close> containing \<open>/learn/\<close>. The catalogue is the external service: for a
  query it gives the page, or the exception that \<open>requests.get\<close>,
  \<open>raise_for_status\<close> or the parser raised.
\<close>

record page =
  by_exact_class :: "link list"
  by_title_class :: "link list"
  by_learn_href :: "link list"

type_synonym catalog = "string \<Rightarrow> py_error + page"

type_synonym course = "string list"

definition page_links :: "page \<Rightarrow> link list" where
  "page_links pg =
     (if by_exact_class pg \<noteq> [] then by_exact_class pg
      else if by_title_class pg \<noteq> [] then by_title_class pg
      else by_learn_href pg)"

definition link_title :: "link \<Rightarrow> string option" where
  "link_title l =
     (if truthy (h3_string l) then h3_string l
      else if truthy (aria_label l) then aria_label l
      else if link_text l \<noteq> [] then Some (strip (link_text l))
      else None)"

definition startswith :: "string \<Rightarrow> string \<Rightarrow> bool" where
  "startswith s pre = (take (length pre) s = pre)"

text \<open>The body of \<open>for link in links\<close>: the course appended for a link, if any.\<close>

definition link_course :: "link \<Rightarrow> course option" where
  "link_course l =
     (case (link_title l, href l) of
        (Some title, Some h) \<Rightarrow>
          if title \<noteq> [] \<and> h \<noteq> []
          then Some [title, if \<not> startswith h ''http'' then ''https://www.coursera.org'' @ h else h]
          else None
      | _ \<Rightarrow> None)"

fun extract_courses :: "link list \<Rightarrow> course list \<Rightarrow> course list" where
  "extract_courses [] skill_courses = skill_courses"
| "extract_courses (l # links) skill_courses =
     extract_courses links
       (case link_course l of None \<Rightarrow> skill_courses | Some c \<Rightarrow> skill_courses @ [c])"

text \<open>Both \<open>except\<close> clauses return the empty list.\<close>

definition search_coursera_for_skill :: "catalog \<Rightarrow> string \<Rightarrow> course list" where
  "search_coursera_for_skill cat skill =
     (if skill = [] \<or> length (strip skill) = 0 then []
      else case cat skill of
             Inl e \<Rightarrow> []
           | Inr pg \<Rightarrow> extract_courses (page_links pg) [])"

definition limit_per_skill :: nat where
  "limit_per_skill = 3"

text \<open>
  \<open>[skill.strip() for skill in specialization.split(',') if skill.strip()][:10]\<close>
\<close>

definition split_skills :: "string \<Rightarrow> string list" where
  "split_skills specialization =
     take 10 (map strip (filter (\<lambda>skill. strip skill \<noteq> []) (split specialization '','')))"

text \<open>The inner loop \<open>for course in limited_courses\<close>.\<close>

fun tag_courses :: "string \<Rightarrow> course list \<Rightarrow> course list \<Rightarrow> course list" where
  "tag_courses skill [] courses = courses"
| "tag_courses skill (course # limited_courses) courses =
     tag_courses skill limited_courses
       (if length course = 2 then courses @ [[course ! 0, course ! 1, skill]]
        else courses @ [course])"

text \<open>The outer loop \<open>for skill in skills\<close>.\<close>

fun collect_courses :: "catalog \<Rightarrow> string list \<Rightarrow> course list \<Rightarrow> course list" where
  "collect_courses cat [] courses = courses"
| "collect_courses cat (skill # skills) courses =
     collect_courses cat skills
       (tag_courses skill (take limit_per_skill (search_coursera_for_skill cat skill)) courses)"

text \<open>The loop that removes duplicates, with its two variables.\<close>

fun unique_loop :: "course list \<Rightarrow> course list \<Rightarrow> string set \<Rightarrow> course list" where
  "unique_loop [] unique_courses seen_titles = unique_courses"
| "unique_loop (course # courses) unique_courses seen_titles =
     (if course ! 0 \<notin> seen_titles
      then unique_loop courses (unique_courses @ [course]) (insert (course ! 0) seen_titles)
      else unique_loop courses unique_courses seen_titles)"

definition get_certifications :: "catalog \<Rightarrow> string \<Rightarrow> course list" where
  "get_certifications cat specialization =
     (if CHR '','' \<in> set specialization
      then unique_loop (collect_courses cat (split_skills specialization) []) [] {}
      else take limit_per_skill (search_coursera_for_skill cat specialization))"

text \<open>
  What one skill contributes to the combined list: its first three catalogue
  results, each with the skill as third element.
\<close>

definition skill_entries :: "catalog \<Rightarrow> string \<Rightarrow> course list" where
  "skill_entries cat skill =
     map (\<lambda>course. course @ [skill]) (take 3 (search_coursera_for_skill cat skill))"

text \<open>A catalogue in which the results of two skills share one title.\<close>

definition shared_title_catalog :: catalog where
  "shared_title_catalog skill =
     (if skill = ''python'' then
        Inr \<lparr>by_exact_class =
               [\<lparr>h3_string = Some ''Programming for Everybody'', aria_label = None,
                 link_text = '''', href = Some ''/learn/python''\<rparr>,
                \<lparr>h3_string = None, aria_label = Some ''Data Analysis'',
                 link_text = '''', href = Some ''https://www.coursera.org/learn/data-python''\<rparr>],
             by_title_class = [], by_learn_href = []\<rparr>
      else if skill = ''sql'' then
        Inr \<lparr>by_exact_class = [], by_title_class = [],
             by_learn_href =
               [\<lparr>h3_string = None, aria_label = None,
                 link_text = '' Data Analysis '', href = Some ''/learn/data-sql''\<rparr>,
                \<lparr>h3_string = None, aria_label = None,
                 link_text = ''SQL Basics'', href = Some ''/learn/sql''\<rparr>]\<rparr>
      else Inl RequestException)"

section \<open>Skill-gap recommender (\<open>main.py\<close>, \<open>recommended_skills\<close>)\<close>







text \<open>
  The list \<open>recommended_skills\<close> sorts before it cuts it: the skills of the
  listings that the user lacks, by falling count. \<open>Counter\<close> is \<open>count_list\<close>.
  \<open>missing_skills\<close> is a set, and \<open>sorted\<close> reads it in its iteration order;
  \<open>sorted(..., reverse=True)\<close> is stable, so skills of equal count stay in that
  order, as they do under \<open>sort_key\<close> with the negated count.
\<close>

definition all_job_skills :: "string list \<Rightarrow> string list" where
  "all_job_skills job_listings = concat (map (\<lambda>x. split x '', '') job_listings)"

definition missing_skills :: "string \<Rightarrow> string list \<Rightarrow> string set" where
  "missing_skills user_skills job_listings
     = set (all_job_skills job_listings) - set (split user_skills '', '')"

definition ranked_missing_skills :: "set_iteration \<Rightarrow> string \<Rightarrow> string list \<Rightarrow> string list" where
  "ranked_missing_skills iteration user_skills job_listings =
     sort_key (\<lambda>skill. - int (count_list (all_job_skills job_listings) skill))
       (iteration (missing_skills user_skills job_listings))"


subsection \<open>The API boundary (\<open>views.py\<close>, \<open>RecommendedSkillsView.post\<close>)\<close>





section \<open>Relevance ranker (\<open>main.py\<close>, \<open>recommended_jobs\<close>)\<close>

text \<open>
  \<open>recommended_jobs\<close> is four library calls. They are modelled as the libraries
  document them, with real numbers in place of 64-bit floats.

  \<open>TfidfVectorizer()\<close> with its defaults lowercases a document and takes as tokens
  the maximal runs of two or more word characters (pattern \<open>\b\w\w+\b\<close>); a term's
  weight in a document is its count times \<open>ln ((1 + n) / (1 + df)) + 1\<close>, where \<open>n\<close>
  is the number of documents and \<open>df\<close> the number of documents holding the term; each
  row is divided by its Euclidean norm. \<open>fit_transform\<close> raises \<open>ValueError\<close>
  when no document has a token.
\<close>

text \<open>
  \<open>\w\<close>: the letters, the digits, the underscore and, beyond ASCII, the characters
  that count as alphanumeric in Unicode.
\<close>

definition is_word_char :: "char \<Rightarrow> bool" where
  "is_word_char c =
     (c \<in> set (lower_letters @ upper_letters @ ''0123456789_''
               @ [CHR 0xAA, CHR 0xB2, CHR 0xB3, CHR 0xB5, CHR 0xB9, CHR 0xBA, CHR 0xBC, CHR 0xBD,
                  CHR 0xBE, CHR 0xDF, CHR 0xFF]))"

fun word_runs :: "string \<Rightarrow> string \<Rightarrow> string list" where
  "word_runs cur [] = (if cur = [] then [] else [cur])"
| "word_runs cur (c # cs) =
     (if is_word_char c then word_runs (cur @ [c]) cs
      else (if cur = [] then [] else [cur]) @ word_runs [] cs)"

definition tokenize :: "string \<Rightarrow> string list" where
  "tokenize doc = filter (\<lambda>t. 2 \<le> length t) (word_runs [] (lower doc))"

text \<open>
  The fitted vocabulary, one feature per term. (scikit-learn orders the features
  alphabetically; the order of the features does not enter a dot product.)
\<close>

definition vocabulary :: "string list \<Rightarrow> string list" where
  "vocabulary docs = remdups (concat (map tokenize docs))"

definition document_frequency :: "string list \<Rightarrow> string \<Rightarrow> nat" where
  "document_frequency docs t = length (filter (\<lambda>d. t \<in> set (tokenize d)) docs)"

definition idf :: "string list \<Rightarrow> string \<Rightarrow> real" where
  "idf docs t = ln ((1 + real (length docs)) / (1 + real (document_frequency docs t))) + 1"

definition l2_normalize :: "real list \<Rightarrow> real list" where
  "l2_normalize v =
     (let norm = sqrt (sum_list (map (\<lambda>x. x * x) v))
      in if norm = 0 then v else map (\<lambda>x. x / norm) v)"

definition tfidf_row :: "string list \<Rightarrow> string \<Rightarrow> real list" where
  "tfidf_row docs d =
     l2_normalize (map (\<lambda>t. real (count_list (tokenize d) t) * idf docs t) (vocabulary docs))"

definition fit_transform :: "string list \<Rightarrow> py_error + real list list" where
  "fit_transform docs =
     (if vocabulary docs = [] then Inl ValueError else Inr (map (tfidf_row docs) docs))"

text \<open>
  \<open>cosine_similarity(X, Y)\<close> checks both arguments and raises \<open>ValueError\<close> for
  one without a row (\<open>check_pairwise_arrays\<close> asks for at least one sample); then it
  normalises the rows and multiplies \<open>X\<close> by the transpose of \<open>Y\<close>.
\<close>

definition dot :: "real list \<Rightarrow> real list \<Rightarrow> real" where
  "dot x y = sum_list (map2 (*) x y)"

definition cosine_similarity :: "real list list \<Rightarrow> real list list \<Rightarrow> py_error + real list list" where
  "cosine_similarity X Y =
     (if X = [] \<or> Y = [] then Inl ValueError
      else Inr (map (\<lambda>x. map (\<lambda>y. dot (l2_normalize x) (l2_normalize y)) Y) X))"

text \<open>
  The corpus is the column \<open>Skills\<close> of the data frame, one string per listing; a
  listing is known by its row position. The scores are \<open>cosine_sim[0]\<close>.
\<close>

definition similarity_scores :: "string \<Rightarrow> string list \<Rightarrow> py_error + real list" where
  "similarity_scores user_skills job_listings =
     (let all_skills = user_skills # job_listings
      in case fit_transform all_skills of
           Inl e \<Rightarrow> Inl e
         | Inr skill_vectors \<Rightarrow>
             (case cosine_similarity (take 1 skill_vectors) (drop 1 skill_vectors) of
                Inl e \<Rightarrow> Inl e
              | Inr cosine_sim \<Rightarrow> Inr (cosine_sim ! 0)))"

record scored_listing =
  row_index :: nat
  Skills :: string
  Similarity_Score :: real

text \<open>\<open>job_listings["Similarity Score"] = cosine_sim[0]\<close>\<close>

definition attach_scores :: "string list \<Rightarrow> real list \<Rightarrow> scored_listing list" where
  "attach_scores job_listings scores =
     map (\<lambda>i. \<lparr>row_index = i, Skills = job_listings ! i, Similarity_Score = scores ! i\<rparr>)
       [0..<length job_listings]"

text \<open>
  \<open>sort_values(by="Similarity Score", ascending=False)\<close> is called without
  \<open>kind\<close>. pandas then sorts with its default, \<open>quicksort\<close>, which its
  documentation lists as not stable: the call fixes that the result holds the same
  rows in falling order of the score, and leaves open in which order rows of equal
  score come. The sort is therefore a relation between the rows and every result the
  call may give.
\<close>

definition sort_values_descending :: "scored_listing list \<Rightarrow> scored_listing list \<Rightarrow> bool" where
  "sort_values_descending rows sorted_rows =
     (mset sorted_rows = mset rows
      \<and> sorted_wrt (\<lambda>a b. Similarity_Score b \<le> Similarity_Score a) sorted_rows)"

text \<open>
  \<open>recommended_jobs user_skills job_listings result\<close>: the call may end in
  \<open>result\<close>, an exception or the sorted data frame.
\<close>

definition recommended_jobs :: "string \<Rightarrow> string list \<Rightarrow> py_error + scored_listing list \<Rightarrow> bool" where
  "recommended_jobs user_skills job_listings result =
     (case similarity_scores user_skills job_listings of
        Inl e \<Rightarrow> result = Inl e
      | Inr scores \<Rightarrow>
          (case result of
             Inl e \<Rightarrow> False
           | Inr sorted_rows \<Rightarrow>
               sort_values_descending (attach_scores job_listings scores) sorted_rows))"

text \<open>
  The score of a listing with skill string \<open>d\<close>, and the score the third listing
  of the worked example gets.
\<close>

definition listing_score :: "string \<Rightarrow> string list \<Rightarrow> string \<Rightarrow> real" where
  "listing_score user_skills job_listings d =
     dot (l2_normalize (tfidf_row (user_skills # job_listings) user_skills))
         (l2_normalize (tfidf_row (user_skills # job_listings) d))"

definition example_score :: real where
  "example_score = (ln (5 / 4) + 1) / sqrt ((ln (5 / 3) + 1)\<^sup>2 + (ln (5 / 4) + 1)\<^sup>2)"

section \<open>Properties\<close>

subsection \<open>Strings and sets\<close>













subsection \<open>The fallback vocabulary\<close>

text \<open>
  C9. The claim that no entry of the vocabulary is shorter than three characters
  fails: the list ships \<open>c#\<close> and \<open>go\<close>.
\<close>

theorem vocabulary_has_two_character_entry:
  "''go'' \<in> set COMMON_TECH_SKILLS \<and> length ''go'' = 2
   \<and> \<not> list_all (\<lambda>skill. 3 \<le> length skill) COMMON_TECH_SKILLS"
  by (simp add: COMMON_TECH_SKILLS_def)

text \<open>
  C9, as amended. The entries of the vocabulary shorter than three characters are
  exactly \<open>c#\<close> and \<open>go\<close>, both of two characters; no entry has a single
  character or none.
\<close>

theorem vocabulary_short_entries:
  "filter (\<lambda>skill. length skill < 3) COMMON_TECH_SKILLS = [''c#'', ''go'']
   \<and> filter (\<lambda>skill. length skill < 2) COMMON_TECH_SKILLS = []"
  by (simp add: COMMON_TECH_SKILLS_def)

subsection \<open>Skill extraction\<close>









subsection \<open>Paginated job fetcher\<close>

lemma inject_cursor_truthy:
  "truthy v \<Longrightarrow> inject_cursor p v h = h(p := (h p)(''nextPage'' \<mapsto> the v))"
  by (auto simp: truthy_def inject_cursor_def split: option.splits)

lemma inject_cursor_other: "q \<noteq> p \<Longrightarrow> inject_cursor p v h q = h q"
  by (auto simp: inject_cursor_def split: option.splits)

lemma continues_cases:
  "continues r \<longleftrightarrow> (\<exists>jobs c. r = Page jobs (Some c) \<and> jobs \<noteq> [] \<and> c \<noteq> [])"
  by (auto simp: continues_def truthy_def split: response.splits option.splits)

lemma fetch_loop_stop:
  assumes "\<not> continues (api (length (sent st)) (inject_cursor p (next_page st) (heap st) p))"
  shows "all_jobs (fetch_loop api p (Suc n) st)
           = all_jobs st @ page_jobs (api (length (sent st)) (inject_cursor p (next_page st) (heap st) p))
       \<and> heap (fetch_loop api p (Suc n) st) = inject_cursor p (next_page st) (heap st)
       \<and> sent (fetch_loop api p (Suc n) st)
           = sent st @ [inject_cursor p (next_page st) (heap st) p]
       \<and> raised (fetch_loop api p (Suc n) st)
           = (case raises (api (length (sent st)) (inject_cursor p (next_page st) (heap st) p)) of
                None \<Rightarrow> raised st
              | Some e \<Rightarrow> Some e)"
  using assms
  by (auto simp: continues_def page_jobs_def raises_def Let_def split: response.splits)

lemma fetch_loop_continue:
  assumes "continues (api (length (sent st)) (inject_cursor p (next_page st) (heap st) p))"
  shows "fetch_loop api p (Suc n) st =
     fetch_loop api p n
       (st\<lparr>heap := inject_cursor p (next_page st) (heap st),
          sent := sent st @ [inject_cursor p (next_page st) (heap st) p],
          all_jobs := all_jobs st
            @ page_jobs (api (length (sent st)) (inject_cursor p (next_page st) (heap st) p)),
          next_page := Some (cursor (api (length (sent st)) (inject_cursor p (next_page st) (heap st) p)))\<rparr>)"
  using assms
  by (auto simp: continues_cases page_jobs_def cursor_def truthy_def Let_def)

declare fetch_loop.simps(2) [simp del]

lemma continues_cursor: "continues r \<Longrightarrow> cursor r \<noteq> []"
  by (auto simp: continues_cases cursor_def)

lemma inject_cursor_Some:
  "c \<noteq> [] \<Longrightarrow> inject_cursor p (Some c) h = h(p := (h p)(''nextPage'' \<mapsto> c))"
  by (simp add: inject_cursor_def)

lemma inject_cursor_overwrite:
  "(inject_cursor p v h)(p := (inject_cursor p v h p)(''nextPage'' \<mapsto> c))
     = h(p := (h p)(''nextPage'' \<mapsto> c))"
  by (auto simp: inject_cursor_def split: option.splits)

lemma inject_cursor_overwrite_at:
  "(inject_cursor p v h p)(''nextPage'' \<mapsto> c) = (h p)(''nextPage'' \<mapsto> c)"
  by (auto simp: inject_cursor_def split: option.splits)

lemma map_upt_shift: "map f [0..<Suc n] = f 0 # map (\<lambda>i. f (Suc i)) [0..<n]"
  by (simp add: map_upt_Suc del: upt_Suc)

lemma fetch_loop_jobs:
  assumes "\<forall>i<k. \<forall>d. continues (api (length (sent st) + i) d)
              \<and> page_jobs (api (length (sent st) + i) d) = js i"
    and "k \<le> n"
    and "k < n \<longrightarrow> \<not> continues r \<and> (\<forall>d. api (length (sent st) + k) d = r)"
  shows "all_jobs (fetch_loop api p n st)
           = all_jobs st @ concat (map js [0..<k]) @ (if k < n then page_jobs r else [])
       \<and> length (sent (fetch_loop api p n st)) = length (sent st) + requests_made k n
       \<and> raised (fetch_loop api p n st)
           = (if k < n then (case raises r of None \<Rightarrow> raised st | Some e \<Rightarrow> Some e)
              else raised st)"
  using assms
proof (induction n arbitrary: st k js)
  case 0
  then show ?case by (simp add: requests_made_def)
next
  case (Suc n)
  let ?h = "inject_cursor p (next_page st) (heap st)"
  let ?r = "api (length (sent st)) (?h p)"
  show ?case
  proof (cases k)
    case 0
    with Suc.prems(3) have r: "?r = r" and stop: "\<not> continues ?r"
      by auto
    show ?thesis
      using 0 r fetch_loop_stop [where api=api and st=st and p=p and n=n, OF stop]
      by (simp add: requests_made_def)
  next
    case (Suc k')
    with Suc.prems(1) have go: "continues ?r" and pj: "page_jobs ?r = js 0"
      by (metis add.right_neutral zero_less_Suc)+
    let ?st = "st\<lparr>heap := ?h, sent := sent st @ [?h p], all_jobs := all_jobs st @ page_jobs ?r,
                  next_page := Some (cursor ?r)\<rparr>"
    have step: "fetch_loop api p (Suc n) st = fetch_loop api p n ?st"
      by (rule fetch_loop_continue [where api=api and st=st and p=p, OF go])
    have a1: "\<forall>i<k'. \<forall>d. continues (api (length (sent ?st) + i) d)
              \<and> page_jobs (api (length (sent ?st) + i) d) = (\<lambda>i. js (Suc i)) i"
      using Suc.prems(1) Suc by auto
    have a2: "k' \<le> n" using Suc.prems(2) Suc by simp
    have a3: "k' < n \<longrightarrow> \<not> continues r \<and> (\<forall>d. api (length (sent ?st) + k') d = r)"
      using Suc.prems(3) Suc by auto
    note IH = Suc.IH [OF a1 a2 a3]
    have rm: "requests_made k (Suc n) = Suc (requests_made k' n)"
      using Suc by (simp add: requests_made_def)
    from IH have j: "all_jobs (fetch_loop api p n ?st)
           = all_jobs ?st @ concat (map (\<lambda>i. js (Suc i)) [0..<k']) @ (if k' < n then page_jobs r else [])"
      and l: "length (sent (fetch_loop api p n ?st)) = length (sent ?st) + requests_made k' n"
      and e: "raised (fetch_loop api p n ?st)
           = (if k' < n then (case raises r of None \<Rightarrow> raised st | Some e \<Rightarrow> Some e)
              else raised st)"
      by (simp_all split: option.splits)
    have k: "k < Suc n \<longleftrightarrow> k' < n" using Suc by simp
    show ?thesis
      unfolding step k rm using j l e pj Suc by (simp add: map_upt_shift del: upt_Suc)
  qed
qed

lemma fetch_loop_store:
  assumes "\<forall>i<k. \<forall>d. continues (api (length (sent st) + i) d)
              \<and> cursor (api (length (sent st) + i) d) = cs i"
    and "k \<le> n"
    and "k < n \<longrightarrow> (\<forall>d. \<not> continues (api (length (sent st) + k) d))"
  shows "sent (fetch_loop api p n st)
           = sent st @ (if requests_made k n = 0 then []
                        else inject_cursor p (next_page st) (heap st) p
                             # map (\<lambda>i. (heap st p)(''nextPage'' \<mapsto> cs i)) [0..<requests_made k n - 1])
       \<and> heap (fetch_loop api p n st)
           = (if requests_made k n = 0 then heap st
              else if requests_made k n = 1 then inject_cursor p (next_page st) (heap st)
              else (heap st)(p := (heap st p)(''nextPage'' \<mapsto> cs (requests_made k n - 2))))"
  using assms
proof (induction n arbitrary: st k cs)
  case 0
  then show ?case by (simp add: requests_made_def)
next
  case (Suc n)
  let ?h = "inject_cursor p (next_page st) (heap st)"
  let ?r = "api (length (sent st)) (?h p)"
  show ?case
  proof (cases k)
    case 0
    with Suc.prems(3) have stop: "\<not> continues ?r"
      by auto
    show ?thesis
      using 0 fetch_loop_stop [where api=api and st=st and p=p and n=n, OF stop]
      by (simp add: requests_made_def)
  next
    case (Suc k')
    with Suc.prems(1) have go: "continues ?r" and cu: "cursor ?r = cs 0"
      by (metis add.right_neutral zero_less_Suc)+
    let ?st = "st\<lparr>heap := ?h, sent := sent st @ [?h p], all_jobs := all_jobs st @ page_jobs ?r,
                  next_page := Some (cursor ?r)\<rparr>"
    have step: "fetch_loop api p (Suc n) st = fetch_loop api p n ?st"
      by (rule fetch_loop_continue [where api=api and st=st and p=p, OF go])
    have c0: "cs 0 \<noteq> []" using continues_cursor [OF go] cu by simp
    have a1: "\<forall>i<k'. \<forall>d. continues (api (length (sent ?st) + i) d)
              \<and> cursor (api (length (sent ?st) + i) d) = (\<lambda>i. cs (Suc i)) i"
      using Suc.prems(1) Suc by auto
    have a2: "k' \<le> n" using Suc.prems(2) Suc by simp
    have a3: "k' < n \<longrightarrow> (\<forall>d. \<not> continues (api (length (sent ?st) + k') d))"
      using Suc.prems(3) Suc by auto
    note IH = Suc.IH [OF a1 a2 a3]
    have rm: "requests_made k (Suc n) = Suc (requests_made k' n)"
      using Suc by (simp add: requests_made_def)
    have snt: "sent (fetch_loop api p (Suc n) st)
           = sent st @ (?h p # map (\<lambda>i. (heap st p)(''nextPage'' \<mapsto> cs i)) [0..<requests_made k' n])"
    proof (cases "requests_made k' n")
      case 0
      then show ?thesis using IH by (simp add: step)
    next
      case (Suc m)
      then show ?thesis using IH c0 cu
        by (simp add: step map_upt_shift inject_cursor_Some inject_cursor_overwrite_at del: upt_Suc)
    qed
    have hp: "heap (fetch_loop api p (Suc n) st)
           = (if requests_made k' n = 0 then ?h
              else (heap st)(p := (heap st p)(''nextPage'' \<mapsto> cs (requests_made k' n - 1))))"
    proof -
      let ?m = "requests_made k' n"
      from IH have h1: "heap (fetch_loop api p n ?st)
           = (if ?m = 0 then ?h
              else if ?m = 1 then inject_cursor p (Some (cursor ?r)) ?h
              else ?h(p := (?h p)(''nextPage'' \<mapsto> cs (Suc (?m - 2)))))"
        by simp
      have e1: "inject_cursor p (Some (cursor ?r)) ?h
                  = (heap st)(p := (heap st p)(''nextPage'' \<mapsto> cs 0))"
        unfolding cu inject_cursor_Some [OF c0] by (rule inject_cursor_overwrite)
      have e2: "?h(p := (?h p)(''nextPage'' \<mapsto> c))
                  = (heap st)(p := (heap st p)(''nextPage'' \<mapsto> c))" for c
        by (rule inject_cursor_overwrite)
      consider "?m = 0" | "?m = 1" | "2 \<le> ?m" by linarith
      then show ?thesis
      proof cases
        case 1
        then show ?thesis by (simp only: step h1) simp
      next
        case 2
        then show ?thesis by (simp only: step h1 e1) simp
      next
        case 3
        then have "Suc (?m - 2) = ?m - 1" and "?m \<noteq> 0" and "?m \<noteq> 1" by simp_all
        then show ?thesis by (simp only: step h1 e2) simp
      qed
    qed
    show ?thesis using snt hp by (simp add: rm)
  qed
qed

lemma response_kinds:
  "(\<not> continues r \<and> raises r = None \<longleftrightarrow>
      r = RequestFailed \<or> (\<exists>nxt. r = Page [] nxt) \<or> (\<exists>jobs. r = Page jobs None)
      \<or> (\<exists>jobs. r = Page jobs (Some [])))
   \<and> (raises r \<noteq> None \<longleftrightarrow> r = NotAnObject \<or> r = JobsNotIterable)
   \<and> (r = RequestFailed \<or> (\<exists>nxt. r = Page [] nxt) \<longrightarrow> page_jobs r = [])
   \<and> (\<forall>jobs nxt. r = Page jobs nxt \<longrightarrow> page_jobs r = jobs)"
  by (cases r) (auto simp: continues_def raises_def page_jobs_def truthy_def split: option.splits)

text \<open>
  C6. The claim that \<open>fetch_paginated_jobs\<close> never raises fails: the loop catches
  \<open>RequestException\<close> alone. When the first response is a page with a job and a
  cursor and the second response has a JSON list as its body, \<open>data.get\<close> raises
  \<open>AttributeError\<close>, the exception leaves the function after two requests, and the
  job of the first page is not returned.
\<close>

theorem fetch_paginated_jobs_raises:
  "fetch_result (fetch_paginated_jobs broken_api (\<lambda>a. Map.empty) 0 5) = Inl AttributeError
   \<and> all_jobs (fetch_paginated_jobs broken_api (\<lambda>a. Map.empty) 0 5) = [''x'']
   \<and> length (sent (fetch_paginated_jobs broken_api (\<lambda>a. Map.empty) 0 5)) = 2"
proof -
  have a: "\<forall>i<1. \<forall>d. continues (broken_api (length (sent (\<lparr>all_jobs = [], next_page = Some [],
              heap = (\<lambda>a. Map.empty), sent = [], raised = None\<rparr> :: string fetch_state)) + i) d)
            \<and> page_jobs (broken_api (length (sent (\<lparr>all_jobs = [], next_page = Some [],
              heap = (\<lambda>a. Map.empty), sent = [], raised = None\<rparr> :: string fetch_state)) + i) d)
                = (\<lambda>i::nat. [''x'']) i"
    by (simp add: broken_api_def continues_def page_jobs_def truthy_def)
  have c: "1 < nat 5 \<longrightarrow> \<not> continues (NotAnObject :: string response)
            \<and> (\<forall>d. broken_api (length (sent (\<lparr>all_jobs = [], next_page = Some [],
              heap = (\<lambda>a. Map.empty), sent = [], raised = None\<rparr> :: string fetch_state)) + 1) d
                 = NotAnObject)"
    by (simp add: broken_api_def continues_def)
  from fetch_loop_jobs [OF a _ c, of 0] show ?thesis
    by (simp add: fetch_paginated_jobs_def fetch_result_def raises_def page_jobs_def
        requests_made_def)
qed

text \<open>
  C6, as amended. \<open>fetch_paginated_jobs\<close> always ends. Let the first \<open>k\<close>
  responses carry jobs \<open>js i\<close> and a non-empty cursor, and let \<open>r\<close> be response
  \<open>k\<close> when the page budget still allows it, a response the loop does not go on
  after. Exactly one request per response is sent. When the budget is exhausted
  the function returns the jobs of the \<open>k\<close> pages. When \<open>r\<close> is a failed request,
  a page with an empty job list, or a page with a missing or empty cursor, the
  function returns, without raising, the jobs of the pages before it followed by the
  jobs of \<open>r\<close>: none for a failed request and for an empty page. When \<open>r\<close> is a
  body that is not a JSON object, or one whose \<open>jobs\<close> cannot be iterated, the
  function raises.
\<close>

theorem fetch_paginated_jobs_partial_result:
  assumes "\<forall>i<k. \<forall>d. continues (api i d) \<and> page_jobs (api i d) = js i"
    and "k \<le> nat max_pages"
    and "k < nat max_pages \<longrightarrow> \<not> continues r \<and> (\<forall>d. api k d = r)"
  shows "fetch_result (fetch_paginated_jobs api h p max_pages)
           = (if k < nat max_pages
              then (case raises r of
                      Some e \<Rightarrow> Inl e
                    | None \<Rightarrow> Inr (concat (map js [0..<k]) @ page_jobs r))
              else Inr (concat (map js [0..<k])))
       \<and> length (sent (fetch_paginated_jobs api h p max_pages)) = requests_made k (nat max_pages)
       \<and> (\<not> continues r \<and> raises r = None \<longleftrightarrow>
            r = RequestFailed \<or> (\<exists>nxt. r = Page [] nxt) \<or> (\<exists>jobs. r = Page jobs None)
            \<or> (\<exists>jobs. r = Page jobs (Some [])))
       \<and> (raises r \<noteq> None \<longleftrightarrow> r = NotAnObject \<or> r = JobsNotIterable)
       \<and> (r = RequestFailed \<or> (\<exists>nxt. r = Page [] nxt) \<longrightarrow> page_jobs r = [])
       \<and> (\<forall>jobs nxt. r = Page jobs nxt \<longrightarrow> page_jobs r = jobs)"
proof -
  let ?st = "\<lparr>all_jobs = [], next_page = Some [], heap = h, sent = [], raised = None\<rparr>
               :: 'a fetch_state"
  from assms have
    "all_jobs (fetch_loop api p (nat max_pages) ?st)
           = all_jobs ?st @ concat (map js [0..<k]) @ (if k < nat max_pages then page_jobs r else [])
       \<and> length (sent (fetch_loop api p (nat max_pages) ?st))
           = length (sent ?st) + requests_made k (nat max_pages)
       \<and> raised (fetch_loop api p (nat max_pages) ?st)
           = (if k < nat max_pages then (case raises r of None \<Rightarrow> raised ?st | Some e \<Rightarrow> Some e)
              else raised ?st)"
    by (intro fetch_loop_jobs) simp_all
  then have main: "fetch_result (fetch_paginated_jobs api h p max_pages)
           = (if k < nat max_pages
              then (case raises r of
                      Some e \<Rightarrow> Inl e
                    | None \<Rightarrow> Inr (concat (map js [0..<k]) @ page_jobs r))
              else Inr (concat (map js [0..<k])))"
    and len: "length (sent (fetch_paginated_jobs api h p max_pages)) = requests_made k (nat max_pages)"
    by (simp_all add: fetch_paginated_jobs_def fetch_result_def split: option.splits)
  from main len response_kinds [of r] show ?thesis by blast
qed

theorem fetch_paginated_jobs_partial_result_witness:
  "fetch_result (fetch_paginated_jobs mock_api (\<lambda>a. Map.empty) 0 5) = Inr [''x'']
   \<and> length (sent (fetch_paginated_jobs mock_api (\<lambda>a. Map.empty) 0 5)) = 2
   \<and> fetch_result (fetch_paginated_jobs failing_api (\<lambda>a. Map.empty) 0 5) = Inr [''a'', ''b'', ''c'']
   \<and> length (sent (fetch_paginated_jobs failing_api (\<lambda>a. Map.empty) 0 5)) = 3
   \<and> fetch_result (fetch_paginated_jobs failing_api (\<lambda>a. Map.empty) 0 2) = Inr [''a'', ''b'', ''c'']
   \<and> length (sent (fetch_paginated_jobs failing_api (\<lambda>a. Map.empty) 0 2)) = 2"
proof -
  let ?js = "\<lambda>i::nat. if i = 0 then [''a'', ''b''] else if i = 1 then [''c''] else []"
  have a: "\<forall>i<1. \<forall>d. continues (mock_api i d)
             \<and> page_jobs (mock_api i d) = (\<lambda>i::nat. [''x'']) i"
    by (simp add: mock_api_def continues_def page_jobs_def truthy_def)
  have b: "1 < nat 5 \<longrightarrow> \<not> continues (Page [] None :: string response)
             \<and> (\<forall>d. mock_api 1 d = Page [] None)"
    by (simp add: mock_api_def continues_def)
  have c: "\<forall>i<2. \<forall>d. continues (failing_api i d) \<and> page_jobs (failing_api i d) = ?js i"
    by (simp add: failing_api_def continues_def page_jobs_def truthy_def)
  have d: "2 < nat 5 \<longrightarrow> \<not> continues (RequestFailed :: string response)
             \<and> (\<forall>d. failing_api 2 d = RequestFailed)"
    by (simp add: failing_api_def continues_def)
  have e: "2 < nat 2 \<longrightarrow> \<not> continues (RequestFailed :: string response)
             \<and> (\<forall>d. failing_api 2 d = RequestFailed)"
    by simp
  from fetch_paginated_jobs_partial_result [OF a _ b, of "\<lambda>a. Map.empty" 0]
  have m: "fetch_result (fetch_paginated_jobs mock_api (\<lambda>a. Map.empty) 0 5) = Inr [''x'']"
    "length (sent (fetch_paginated_jobs mock_api (\<lambda>a. Map.empty) 0 5)) = 2"
    by (simp_all add: requests_made_def raises_def page_jobs_def)
  from fetch_paginated_jobs_partial_result [OF c _ d, of "\<lambda>a. Map.empty" 0]
  have f: "fetch_result (fetch_paginated_jobs failing_api (\<lambda>a. Map.empty) 0 5) = Inr [''a'', ''b'', ''c'']"
    "length (sent (fetch_paginated_jobs failing_api (\<lambda>a. Map.empty) 0 5)) = 3"
    by (simp_all add: requests_made_def raises_def page_jobs_def upt_rec)
  from fetch_paginated_jobs_partial_result [OF c _ e, of "\<lambda>a. Map.empty" 0]
  have g: "fetch_result (fetch_paginated_jobs failing_api (\<lambda>a. Map.empty) 0 2) = Inr [''a'', ''b'', ''c'']"
    "length (sent (fetch_paginated_jobs failing_api (\<lambda>a. Map.empty) 0 2)) = 2"
    by (simp_all add: requests_made_def upt_rec)
  from m f g show ?thesis by simp
qed

text \<open>
  C10. When the loop issues at least two requests, that is, when it received a
  non-empty cursor and went on to another page, the caller's dictionary at address
  \<open>p\<close> ends as it was with the key \<open>nextPage\<close> set to the cursor of the response
  before the last request, so it differs from the dictionary passed in unless that
  already mapped \<open>nextPage\<close> to this cursor; request \<open>i + 1\<close> was sent with the
  cursor of response \<open>i\<close>. With fewer than two requests the store is unchanged, and
  no other dictionary of the store is ever touched.
\<close>

theorem fetch_paginated_jobs_writes_cursor:
  assumes "\<forall>i<k. \<forall>d. continues (api i d) \<and> cursor (api i d) = cs i"
    and "k \<le> nat max_pages"
    and "k < nat max_pages \<longrightarrow> (\<forall>d. \<not> continues (api k d))"
  shows "(2 \<le> requests_made k (nat max_pages) \<longrightarrow>
            heap (fetch_paginated_jobs api h p max_pages) p
              = (h p)(''nextPage'' \<mapsto> cs (requests_made k (nat max_pages) - 2))
            \<and> (h p ''nextPage'' \<noteq> Some (cs (requests_made k (nat max_pages) - 2)) \<longrightarrow>
                 heap (fetch_paginated_jobs api h p max_pages) p \<noteq> h p)
            \<and> sent (fetch_paginated_jobs api h p max_pages)
              = h p # map (\<lambda>i. (h p)(''nextPage'' \<mapsto> cs i))
                        [0..<requests_made k (nat max_pages) - 1])
       \<and> (requests_made k (nat max_pages) < 2 \<longrightarrow>
            heap (fetch_paginated_jobs api h p max_pages) = h)
       \<and> (\<forall>q. q \<noteq> p \<longrightarrow> heap (fetch_paginated_jobs api h p max_pages) q = h q)"
proof -
  let ?st = "\<lparr>all_jobs = [], next_page = Some [], heap = h, sent = [], raised = None\<rparr>
               :: 'a fetch_state"
  let ?r = "requests_made k (nat max_pages)"
  have inj: "inject_cursor p (Some []) h = h"
    by (simp add: inject_cursor_def)
  from assms have
    "sent (fetch_loop api p (nat max_pages) ?st)
           = sent ?st @ (if ?r = 0 then []
                        else inject_cursor p (next_page ?st) (heap ?st) p
                             # map (\<lambda>i. (heap ?st p)(''nextPage'' \<mapsto> cs i)) [0..<?r - 1])
       \<and> heap (fetch_loop api p (nat max_pages) ?st)
           = (if ?r = 0 then heap ?st
              else if ?r = 1 then inject_cursor p (next_page ?st) (heap ?st)
              else (heap ?st)(p := (heap ?st p)(''nextPage'' \<mapsto> cs (?r - 2))))"
    by (intro fetch_loop_store) simp_all
  then have snt: "sent (fetch_paginated_jobs api h p max_pages)
           = (if ?r = 0 then [] else h p # map (\<lambda>i. (h p)(''nextPage'' \<mapsto> cs i)) [0..<?r - 1])"
    and hp: "heap (fetch_paginated_jobs api h p max_pages)
           = (if ?r = 0 then h else if ?r = 1 then h
              else h(p := (h p)(''nextPage'' \<mapsto> cs (?r - 2))))"
    by (simp_all add: fetch_paginated_jobs_def inj)
  have a: "heap (fetch_paginated_jobs api h p max_pages) p = (h p)(''nextPage'' \<mapsto> cs (?r - 2))"
    if "2 \<le> ?r" using that hp by simp
  have b: "heap (fetch_paginated_jobs api h p max_pages) p \<noteq> h p"
    if "2 \<le> ?r" "h p ''nextPage'' \<noteq> Some (cs (?r - 2))"
  proof
    assume "heap (fetch_paginated_jobs api h p max_pages) p = h p"
    with a [OF that(1)] have "h p = (h p)(''nextPage'' \<mapsto> cs (?r - 2))" by simp
    then have "h p ''nextPage'' = ((h p)(''nextPage'' \<mapsto> cs (?r - 2))) ''nextPage''" by simp
    with that(2) show False by simp
  qed
  have c: "sent (fetch_paginated_jobs api h p max_pages)
              = h p # map (\<lambda>i. (h p)(''nextPage'' \<mapsto> cs i)) [0..<?r - 1]"
    if "2 \<le> ?r" using that snt by simp
  have d: "heap (fetch_paginated_jobs api h p max_pages) = h" if "?r < 2"
    using that hp by (cases "?r = 0") simp_all
  have e: "heap (fetch_paginated_jobs api h p max_pages) q = h q" if "q \<noteq> p" for q
    using that hp by simp
  from a b c d e show ?thesis by blast
qed

theorem fetch_paginated_jobs_writes_cursor_witness:
  "heap (fetch_paginated_jobs failing_api (\<lambda>a. [''query'' \<mapsto> ''python'']) 0 5) 0
     = [''query'' \<mapsto> ''python'', ''nextPage'' \<mapsto> ''t2'']
   \<and> heap (fetch_paginated_jobs failing_api (\<lambda>a. [''query'' \<mapsto> ''python'']) 0 5) 0
     \<noteq> [''query'' \<mapsto> ''python'']
   \<and> sent (fetch_paginated_jobs failing_api (\<lambda>a. [''query'' \<mapsto> ''python'']) 0 5)
     = [[''query'' \<mapsto> ''python''],
        [''query'' \<mapsto> ''python'', ''nextPage'' \<mapsto> ''t1''],
        [''query'' \<mapsto> ''python'', ''nextPage'' \<mapsto> ''t2'']]"
proof -
  let ?cs = "\<lambda>i::nat. if i = 0 then ''t1'' else ''t2''"
  let ?h = "\<lambda>a::address. [''query'' \<mapsto> ''python'']"
  have a: "\<forall>i<2. \<forall>d. continues (failing_api i d) \<and> cursor (failing_api i d) = ?cs i"
    by (simp add: failing_api_def continues_def cursor_def truthy_def)
  have b: "2 < nat 5 \<longrightarrow> (\<forall>d. \<not> continues (failing_api 2 d))"
    by (simp add: failing_api_def continues_def)
  have r: "requests_made 2 (nat 5) = 3"
    by (simp add: requests_made_def)
  have absent: "?h 0 ''nextPage'' \<noteq> Some (?cs (3 - 2))"
    by simp
  have ne: "[''query'' \<mapsto> ''python'', ''nextPage'' \<mapsto> ''t2''] \<noteq> [''query'' \<mapsto> ''python'']"
  proof
    assume "[''query'' \<mapsto> ''python'', ''nextPage'' \<mapsto> ''t2''] = [''query'' \<mapsto> ''python'']"
    then have "[''query'' \<mapsto> ''python'', ''nextPage'' \<mapsto> ''t2''] ''nextPage''
                 = [''query'' \<mapsto> ''python''] ''nextPage''"
      by (rule arg_cong)
    then show False by simp
  qed
  from fetch_paginated_jobs_writes_cursor [OF a _ b, of ?h 0] r absent ne
  have "heap (fetch_paginated_jobs failing_api ?h 0 5) 0 = (?h 0)(''nextPage'' \<mapsto> ?cs (3 - 2))"
    and "heap (fetch_paginated_jobs failing_api ?h 0 5) 0 \<noteq> ?h 0"
    and "sent (fetch_paginated_jobs failing_api ?h 0 5)
           = ?h 0 # map (\<lambda>i. (?h 0)(''nextPage'' \<mapsto> ?cs i)) [0..<3 - 1]"
    by simp_all
  then show ?thesis by (simp add: upt_rec)
qed

subsection \<open>Certification finder\<close>

lemma link_course_length: "link_course l = Some c \<Longrightarrow> length c = 2"
  by (auto simp: link_course_def split: option.splits if_splits)

lemma extract_courses_length:
  "\<forall>c \<in> set acc. length c = 2 \<Longrightarrow> \<forall>c \<in> set (extract_courses links acc). length c = 2"
proof (induction links arbitrary: acc)
  case Nil
  then show ?case by simp
next
  case (Cons l links)
  show ?case
  proof (cases "link_course l")
    case None
    then show ?thesis using Cons by simp
  next
    case (Some c)
    with Cons.prems have "\<forall>c \<in> set (acc @ [c]). length c = 2"
      by (auto dest: link_course_length)
    from Cons.IH [OF this] Some show ?thesis by simp
  qed
qed

lemma search_length: "c \<in> set (search_coursera_for_skill cat skill) \<Longrightarrow> length c = 2"
  using extract_courses_length [of "[]"]
  by (auto simp: search_coursera_for_skill_def split: if_splits sum.splits)

lemma search_failure: "cat skill = Inl e \<Longrightarrow> search_coursera_for_skill cat skill = []"
  by (simp add: search_coursera_for_skill_def)

lemma tag_two: "length c = 2 \<Longrightarrow> [c ! 0, c ! 1, skill] = c @ [skill]"
  by (cases c; cases "tl c") auto

lemma tag_courses_step:
  "length c = 2 \<Longrightarrow>
     (if length c = 2 then courses @ [[c ! 0, c ! 1, skill]] else courses @ [c])
       = courses @ [c @ [skill]]"
  using tag_two [of c skill] by simp

lemma tag_courses_append:
  "\<forall>c \<in> set cs. length c = 2 \<Longrightarrow>
     tag_courses skill cs courses = courses @ map (\<lambda>course. course @ [skill]) cs"
proof (induction cs arbitrary: courses)
  case Nil
  then show ?case by simp
next
  case (Cons c cs)
  then have len: "length c = 2" and rest: "\<forall>c \<in> set cs. length c = 2"
    by simp_all
  have "tag_courses skill (c # cs) courses = tag_courses skill cs (courses @ [c @ [skill]])"
    by (simp only: tag_courses.simps tag_courses_step [OF len])
  also have "\<dots> = (courses @ [c @ [skill]]) @ map (\<lambda>course. course @ [skill]) cs"
    by (rule Cons.IH [OF rest])
  finally show ?case by simp
qed

lemma tag_courses_entries:
  "tag_courses skill (take limit_per_skill (search_coursera_for_skill cat skill)) courses
     = courses @ skill_entries cat skill"
  unfolding skill_entries_def limit_per_skill_def
  by (rule tag_courses_append) (auto dest: in_set_takeD search_length)

lemma collect_courses_concat:
  "collect_courses cat skills courses = courses @ concat (map (skill_entries cat) skills)"
  by (induction skills arbitrary: courses) (simp_all add: tag_courses_entries)

lemma skill_entries_length: "length (skill_entries cat skill) \<le> 3"
  by (simp add: skill_entries_def)

lemma skill_entries_failure: "cat skill = Inl e \<Longrightarrow> skill_entries cat skill = []"
  by (simp add: skill_entries_def search_failure)

lemma skill_entries_shape:
  "c \<in> set (skill_entries cat skill) \<Longrightarrow> length c = 3 \<and> c ! 2 = skill"
  by (auto simp: skill_entries_def nth_append dest!: in_set_takeD search_length)

lemma unique_loop_filter:
  "filter (\<lambda>c. c ! 0 = t) (unique_loop xs u seen)
     = filter (\<lambda>c. c ! 0 = t) u
       @ (if t \<in> seen then []
          else case find (\<lambda>c. c ! 0 = t) xs of None \<Rightarrow> [] | Some c \<Rightarrow> [c])"
  by (induction xs arbitrary: u seen) auto

lemma unique_loop_distinct:
  "distinct (map (\<lambda>c. c ! 0) u) \<Longrightarrow> (\<lambda>c. c ! 0) ` set u \<subseteq> seen \<Longrightarrow>
     distinct (map (\<lambda>c. c ! 0) (unique_loop xs u seen))"
proof (induction xs arbitrary: u seen)
  case Nil
  then show ?case by simp
next
  case (Cons x xs)
  show ?case
  proof (cases "x ! 0 \<in> seen")
    case True
    then show ?thesis using Cons by simp
  next
    case False
    with Cons.prems have "distinct (map (\<lambda>c. c ! 0) (u @ [x]))"
      and "(\<lambda>c. c ! 0) ` set (u @ [x]) \<subseteq> insert (x ! 0) seen"
      by auto
    from Cons.IH [OF this] False show ?thesis by simp
  qed
qed

lemma unique_loop_subset:
  "set (unique_loop xs u seen) \<subseteq> set u \<union> set xs"
proof (induction xs arbitrary: u seen)
  case Nil
  then show ?case by simp
next
  case (Cons x xs)
  from Cons.IH [of "u @ [x]" "insert (x ! 0) seen"] Cons.IH [of u seen]
  show ?case by auto
qed

lemma dropWhile_fixed: "xs = [] \<or> \<not> P (hd xs) \<Longrightarrow> dropWhile P xs = xs"
  by (cases xs) auto

lemma rstrip_split: "t = rev (dropWhile P (rev t)) @ rev (takeWhile P (rev t))"
proof -
  have a: "rev (takeWhile P (rev t) @ dropWhile P (rev t))
             = rev (dropWhile P (rev t)) @ rev (takeWhile P (rev t))"
    by (rule rev_append)
  have b: "rev (takeWhile P (rev t) @ dropWhile P (rev t)) = t"
    by (simp only: takeWhile_dropWhile_id rev_rev_ident)
  from b [symmetric] a show ?thesis by (rule trans)
qed

lemma hd_of_prefix: "t = u @ v \<Longrightarrow> u \<noteq> [] \<Longrightarrow> hd u = hd t \<and> t \<noteq> []"
  by (cases u) auto

lemma rstrip_hd:
  assumes "rev (dropWhile P (rev t)) \<noteq> []"
  shows "hd (rev (dropWhile P (rev t))) = hd t \<and> t \<noteq> []"
  by (rule hd_of_prefix [OF rstrip_split assms])

lemma strip_strip: "strip (strip s) = strip s"
proof -
  let ?t = "dropWhile is_space s"
  let ?u = "rev (dropWhile is_space (rev ?t))"
  have t: "?t = [] \<or> \<not> is_space (hd ?t)"
    by (metis hd_dropWhile)
  have "?u = [] \<or> \<not> is_space (hd ?u)"
  proof (cases "?u = []")
    case True
    then show ?thesis by simp
  next
    case False
    from rstrip_hd [OF False] t show ?thesis by metis
  qed
  then have "dropWhile is_space ?u = ?u" by (rule dropWhile_fixed)
  then show ?thesis by (simp add: strip_def)
qed

lemma split_skills_tokens:
  "length (split_skills s) \<le> 10 \<and> list_all (\<lambda>skill. skill \<noteq> [] \<and> trimmed skill) (split_skills s)"
  by (auto simp: split_skills_def list_all_iff trimmed_def strip_strip dest!: in_set_takeD)

lemma join_Cons: "ys \<noteq> [] \<Longrightarrow> join sep (x # ys) = x @ sep @ join sep ys"
  by (cases ys) simp_all

lemma split_from_nonempty: "split_from sep cur s \<noteq> []"
  by (induction sep cur s rule: split_from.induct) auto

lemma join_split_from: "sep \<noteq> [] \<Longrightarrow> join sep (split_from sep cur s) = cur @ s"
proof (induction sep cur s rule: split_from.induct)
  case (1 sep cur)
  then show ?case by simp
next
  case (2 sep cur c cs)
  show ?case
  proof (cases "take (length sep) (c # cs) = sep")
    case True
    have "join sep (split_from sep cur (c # cs))
            = cur @ sep @ join sep (split_from sep [] (drop (length sep) (c # cs)))"
      using True 2(3) by (simp add: join_Cons split_from_nonempty)
    also have "\<dots> = cur @ sep @ drop (length sep) (c # cs)"
      using 2(1) [OF conjI [OF 2(3) True]] 2(3) by simp
    also have "sep @ drop (length sep) (c # cs) = c # cs"
      by (subst (1) True [symmetric]) (rule append_take_drop_id)
    finally show ?thesis by simp
  next
    case False
    then show ?thesis using 2(2) 2(3) by simp
  qed
qed

lemma split_from_parts:
  "c \<notin> set cur \<Longrightarrow> part \<in> set (split_from [c] cur s) \<Longrightarrow> c \<notin> set part"
proof (induction "[c]" cur s arbitrary: part rule: split_from.induct)
  case (1 cur)
  then show ?case by simp
next
  case (2 cur x xs)
  show ?case
  proof (cases "x = c")
    case True
    with 2(4) have "part = cur \<or> part \<in> set (split_from [c] [] xs)" by simp
    then show ?thesis
    proof
      assume "part = cur"
      with 2(3) show ?thesis by simp
    next
      assume "part \<in> set (split_from [c] [] xs)"
      with 2(1) True show ?thesis by simp
    qed
  next
    case False
    with 2(4) have "part \<in> set (split_from [c] (cur @ [x]) xs)" by simp
    moreover have "c \<notin> set (cur @ [x])" using 2(3) False by simp
    ultimately show ?thesis using 2(2) False by simp
  qed
qed

lemma split_comma:
  "join '','' (split s '','') = s \<and> (\<forall>part \<in> set (split s '',''). CHR '','' \<notin> set part)"
  using join_split_from [of "'',''" "[]" s] split_from_parts [of "CHR '',''" "[]" _ s]
  by (auto simp: split_def)

lemma strip_decomposition:
  "\<exists>a b. s = a @ strip s @ b \<and> list_all is_space a \<and> list_all is_space b"
proof -
  let ?t = "dropWhile is_space s"
  let ?b = "rev (takeWhile is_space (rev ?t))"
  have "s = takeWhile is_space s @ ?t" by simp
  moreover have "?t = strip s @ ?b"
    unfolding strip_def by (rule rstrip_split)
  ultimately have "s = takeWhile is_space s @ strip s @ ?b" by simp
  moreover have "list_all is_space (takeWhile is_space s)"
    by (auto simp: list_all_iff dest: set_takeWhileD)
  moreover have "list_all is_space ?b"
    by (auto simp: list_all_iff dest: set_takeWhileD)
  ultimately show ?thesis by blast
qed

lemma strip_ends:
  "strip s = [] \<or> (\<not> is_space (hd (strip s)) \<and> \<not> is_space (last (strip s)))"
proof (cases "strip s = []")
  case True
  then show ?thesis by simp
next
  case False
  let ?t = "dropWhile is_space s"
  let ?d = "dropWhile is_space (rev ?t)"
  from False have ne: "rev ?d \<noteq> []" by (simp add: strip_def)
  from rstrip_hd [OF ne] have "hd (rev ?d) = hd ?t" and "?t \<noteq> []" by simp_all
  moreover have "\<not> is_space (hd ?t)" using \<open>?t \<noteq> []\<close> by (rule hd_dropWhile)
  moreover have "?d \<noteq> []" using ne by simp
  then have "\<not> is_space (hd ?d)" by (rule hd_dropWhile)
  moreover have "last (rev ?d) = hd ?d" using \<open>?d \<noteq> []\<close> by (simp add: last_rev)
  ultimately show ?thesis by (simp add: strip_def)
qed

text \<open>
  C5. For a specialization containing a comma, the skills processed are the parts
  between commas, stripped, without the parts that strip to nothing, cut to the
  first ten. The result is the duplicate-free reading of the concatenation, in
  skill order, of what each skill contributes: its first three catalogue results,
  tagged. A skill whose query raises contributes nothing, and the result is then the
  one obtained from the skills before and after it. The function is total: no
  exception of the catalogue leaves it. Splitting at commas is exact: the parts
  joined with commas give the specialization back and no part holds a comma; and
  stripping removes whitespace at both ends and nothing else.
\<close>

theorem get_certifications_per_skill:
  assumes "CHR '','' \<in> set specialization"
  shows "get_certifications cat specialization
           = unique_loop (concat (map (skill_entries cat) (split_skills specialization))) [] {}
       \<and> split_skills specialization
           = take 10 (map strip (filter (\<lambda>skill. strip skill \<noteq> []) (split specialization '','')))
       \<and> length (split_skills specialization) \<le> 10
       \<and> list_all (\<lambda>skill. skill \<noteq> [] \<and> trimmed skill) (split_skills specialization)
       \<and> (\<forall>skill. skill_entries cat skill
                   = map (\<lambda>course. course @ [skill]) (take 3 (search_coursera_for_skill cat skill))
                 \<and> length (skill_entries cat skill) \<le> 3)
       \<and> (\<forall>skill e. cat skill = Inl e \<longrightarrow> skill_entries cat skill = [])
       \<and> join '','' (split specialization '','') = specialization
       \<and> (\<forall>part \<in> set (split specialization '','').
             CHR '','' \<notin> set part
             \<and> (\<exists>a b. part = a @ strip part @ b \<and> list_all is_space a \<and> list_all is_space b)
             \<and> (strip part = [] \<or> (\<not> is_space (hd (strip part)) \<and> \<not> is_space (last (strip part)))))
       \<and> (\<forall>before skill after e.
             split_skills specialization = before @ skill # after \<and> cat skill = Inl e \<longrightarrow>
             get_certifications cat specialization
               = unique_loop (concat (map (skill_entries cat) before)
                              @ concat (map (skill_entries cat) after)) [] {})"
proof -
  have res: "get_certifications cat specialization
           = unique_loop (concat (map (skill_entries cat) (split_skills specialization))) [] {}"
    using assms by (simp add: get_certifications_def collect_courses_concat)
  have skip: "get_certifications cat specialization
               = unique_loop (concat (map (skill_entries cat) before)
                              @ concat (map (skill_entries cat) after)) [] {}"
    if "split_skills specialization = before @ skill # after" "cat skill = Inl e"
    for before skill after e
    using that by (simp add: res skill_entries_failure)
  have parts: "CHR '','' \<notin> set part
             \<and> (\<exists>a b. part = a @ strip part @ b \<and> list_all is_space a \<and> list_all is_space b)
             \<and> (strip part = [] \<or> (\<not> is_space (hd (strip part)) \<and> \<not> is_space (last (strip part))))"
    if "part \<in> set (split specialization '','')" for part
    using that split_comma [of specialization] strip_decomposition [of part] strip_ends [of part]
    by blast
  have defs: "split_skills specialization
           = take 10 (map strip (filter (\<lambda>skill. strip skill \<noteq> []) (split specialization '','')))"
    "skill_entries cat skill
           = map (\<lambda>course. course @ [skill]) (take 3 (search_coursera_for_skill cat skill))" for skill
    by (simp_all add: split_skills_def skill_entries_def)
  from res skip split_skills_tokens [of specialization] parts defs split_comma [of specialization]
    skill_entries_failure [of cat] skill_entries_length [of cat]
  show ?thesis by blast
qed

theorem get_certifications_per_skill_witness:
  "get_certifications shared_title_catalog ''python, rust,, sql ''
     = [[''Programming for Everybody'', ''https://www.coursera.org/learn/python'', ''python''],
        [''Data Analysis'', ''https://www.coursera.org/learn/data-python'', ''python''],
        [''SQL Basics'', ''https://www.coursera.org/learn/sql'', ''sql'']]
   \<and> split_skills ''python, rust,, sql '' = [''python'', ''rust'', ''sql'']
   \<and> shared_title_catalog ''rust'' = Inl RequestException
   \<and> skill_entries shared_title_catalog ''rust'' = []"
proof -
  have comma: "CHR '','' \<in> set ''python, rust,, sql ''"
    by simp
  have skills: "split_skills ''python, rust,, sql '' = [''python'', ''rust''] @ ''sql'' # []
                \<and> split_skills ''python, rust,, sql '' = [''python''] @ ''rust'' # [''sql'']"
    by (simp add: split_skills_def split_def strip_def is_space_def)
  have fails: "shared_title_catalog ''rust'' = Inl RequestException"
    by (simp add: shared_title_catalog_def)
  have py: "skill_entries shared_title_catalog ''python''
      = [[''Programming for Everybody'', ''https://www.coursera.org/learn/python'', ''python''],
         [''Data Analysis'', ''https://www.coursera.org/learn/data-python'', ''python'']]"
    by (simp add: skill_entries_def search_coursera_for_skill_def shared_title_catalog_def
        page_links_def link_course_def link_title_def truthy_def startswith_def strip_def
        is_space_def)
  have sq: "skill_entries shared_title_catalog ''sql''
      = [[''Data Analysis'', ''https://www.coursera.org/learn/data-sql'', ''sql''],
         [''SQL Basics'', ''https://www.coursera.org/learn/sql'', ''sql'']]"
    by (simp add: skill_entries_def search_coursera_for_skill_def shared_title_catalog_def
        page_links_def link_course_def link_title_def truthy_def startswith_def strip_def
        is_space_def)
  from get_certifications_per_skill [OF comma, of shared_title_catalog] skills fails
  have "get_certifications shared_title_catalog ''python, rust,, sql ''
          = unique_loop (concat (map (skill_entries shared_title_catalog) [''python''])
                         @ concat (map (skill_entries shared_title_catalog) [''sql''])) [] {}"
    and "skill_entries shared_title_catalog ''rust'' = []"
    by blast+
  then show ?thesis using skills fails by (simp add: py sq)
qed

text \<open>
  C4. For a specialization containing a comma, no two entries of the result have the
  same title; for every title, the result holds exactly the first entry of the
  combined list with that title (its URL and skill tag included) when the combined
  list has one, and no entry with that title otherwise. Every entry is a title, a
  URL and a skill.
\<close>

theorem get_certifications_unique_titles:
  assumes "CHR '','' \<in> set specialization"
  shows "distinct (map (\<lambda>course. course ! 0) (get_certifications cat specialization))
       \<and> (\<forall>title. filter (\<lambda>course. course ! 0 = title) (get_certifications cat specialization)
             = (case find (\<lambda>course. course ! 0 = title)
                       (collect_courses cat (split_skills specialization) []) of
                  None \<Rightarrow> []
                | Some course \<Rightarrow> [course]))
       \<and> list_all (\<lambda>course. length course = 3) (get_certifications cat specialization)"
proof -
  let ?combined = "collect_courses cat (split_skills specialization) []"
  have res: "get_certifications cat specialization = unique_loop ?combined [] {}"
    using assms by (simp add: get_certifications_def)
  have d: "distinct (map (\<lambda>course. course ! 0) (unique_loop ?combined [] {}))"
    by (rule unique_loop_distinct) simp_all
  have f: "filter (\<lambda>course. course ! 0 = title) (unique_loop ?combined [] {})
             = (case find (\<lambda>course. course ! 0 = title) ?combined of
                  None \<Rightarrow> [] | Some course \<Rightarrow> [course])" for title
    by (simp add: unique_loop_filter)
  have "length course = 3" if "course \<in> set (unique_loop ?combined [] {})" for course
  proof -
    from that unique_loop_subset [of ?combined "[]" "{}"] have "course \<in> set ?combined"
      by auto
    then show ?thesis
      by (auto simp: collect_courses_concat dest: skill_entries_shape)
  qed
  then have l: "list_all (\<lambda>course. length course = 3) (unique_loop ?combined [] {})"
    by (simp add: list_all_iff)
  from d f l show ?thesis by (simp only: res) simp
qed

theorem get_certifications_unique_titles_witness:
  "map (\<lambda>course. course ! 0) (collect_courses shared_title_catalog (split_skills ''python, sql'') [])
     = [''Programming for Everybody'', ''Data Analysis'', ''Data Analysis'', ''SQL Basics'']
   \<and> filter (\<lambda>course. course ! 0 = ''Data Analysis'') (get_certifications shared_title_catalog ''python, sql'')
     = [[''Data Analysis'', ''https://www.coursera.org/learn/data-python'', ''python'']]
   \<and> distinct (map (\<lambda>course. course ! 0) (get_certifications shared_title_catalog ''python, sql''))"
proof -
  have comma: "CHR '','' \<in> set ''python, sql''"
    by simp
  have skills: "split_skills ''python, sql'' = [''python'', ''sql'']"
    by (simp add: split_skills_def split_def strip_def is_space_def)
  have py: "skill_entries shared_title_catalog ''python''
      = [[''Programming for Everybody'', ''https://www.coursera.org/learn/python'', ''python''],
         [''Data Analysis'', ''https://www.coursera.org/learn/data-python'', ''python'']]"
    by (simp add: skill_entries_def search_coursera_for_skill_def shared_title_catalog_def
        page_links_def link_course_def link_title_def truthy_def startswith_def strip_def
        is_space_def)
  have sq: "skill_entries shared_title_catalog ''sql''
      = [[''Data Analysis'', ''https://www.coursera.org/learn/data-sql'', ''sql''],
         [''SQL Basics'', ''https://www.coursera.org/learn/sql'', ''sql'']]"
    by (simp add: skill_entries_def search_coursera_for_skill_def shared_title_catalog_def
        page_links_def link_course_def link_title_def truthy_def startswith_def strip_def
        is_space_def)
  have combined: "collect_courses shared_title_catalog (split_skills ''python, sql'') []
      = [[''Programming for Everybody'', ''https://www.coursera.org/learn/python'', ''python''],
         [''Data Analysis'', ''https://www.coursera.org/learn/data-python'', ''python''],
         [''Data Analysis'', ''https://www.coursera.org/learn/data-sql'', ''sql''],
         [''SQL Basics'', ''https://www.coursera.org/learn/sql'', ''sql'']]"
    by (simp add: collect_courses_concat skills py sq)
  from get_certifications_unique_titles [OF comma, of shared_title_catalog]
  have "distinct (map (\<lambda>course. course ! 0) (get_certifications shared_title_catalog ''python, sql''))"
    and "filter (\<lambda>course. course ! 0 = ''Data Analysis'') (get_certifications shared_title_catalog ''python, sql'')
      = (case find (\<lambda>course. course ! 0 = ''Data Analysis'')
                (collect_courses shared_title_catalog (split_skills ''python, sql'') []) of
           None \<Rightarrow> [] | Some course \<Rightarrow> [course])"
    by blast+
  then show ?thesis by (simp add: combined)
qed

subsection \<open>Skill-gap recommender\<close>








lemma ranked_missing_skills_order:
  assumes "iterates it (missing_skills u jl)"
  shows "distinct (ranked_missing_skills it u jl)"
    and "set (ranked_missing_skills it u jl) = missing_skills u jl"
    and "sorted_wrt (\<lambda>a b. count_list (all_job_skills jl) b \<le> count_list (all_job_skills jl) a)
           (ranked_missing_skills it u jl)"
    and "filter (\<lambda>skill. count_list (all_job_skills jl) skill = k) (ranked_missing_skills it u jl)
           = filter (\<lambda>skill. count_list (all_job_skills jl) skill = k) (it (missing_skills u jl))"
proof -
  let ?f = "\<lambda>skill. - int (count_list (all_job_skills jl) skill)"
  let ?xs = "it (missing_skills u jl)"
  from assms show "distinct (ranked_missing_skills it u jl)"
    by (simp add: ranked_missing_skills_def iterates_def)
  from assms show "set (ranked_missing_skills it u jl) = missing_skills u jl"
    by (simp add: ranked_missing_skills_def iterates_def)
  have "sorted (map ?f (sort_key ?f ?xs))" by (rule sorted_sort_key)
  then show "sorted_wrt (\<lambda>a b. count_list (all_job_skills jl) b \<le> count_list (all_job_skills jl) a)
           (ranked_missing_skills it u jl)"
    by (simp add: ranked_missing_skills_def sorted_wrt_map)
  have "filter (\<lambda>y. ?f y = - int k) (sort_key ?f ?xs) = filter (\<lambda>y. ?f y = - int k) ?xs"
    by (rule sort_key_stable)
  then show "filter (\<lambda>skill. count_list (all_job_skills jl) skill = k) (ranked_missing_skills it u jl)
           = filter (\<lambda>skill. count_list (all_job_skills jl) skill = k) (it (missing_skills u jl))"
    by (simp add: ranked_missing_skills_def)
qed

lemma example_missing:
  "missing_skills ''python'' [''python, sql'', ''python, sql'', ''java''] = {''sql'', ''java''}"
  by (auto simp: missing_skills_def all_job_skills_def split_def)


lemma two_element_order:
  assumes "distinct xs" and "set xs = {a, b}" and "a \<noteq> b"
    and "sorted_wrt (\<lambda>x y. f y \<le> f x) xs" and "(f b :: nat) < f a"
  shows "xs = [a, b]"
proof -
  from assms(1,2,3) have "length xs = 2"
    using distinct_card [of xs] by simp
  then obtain x y where xs: "xs = [x, y]"
    by (auto simp: numeral_2_eq_2 length_Suc_conv)
  with assms(2) have "{x, y} = {a, b}" by simp
  then have "(x = a \<and> y = b) \<or> (x = b \<and> y = a)" by (auto simp: doubleton_eq_iff)
  with assms(4,5) xs show ?thesis by auto
qed

text \<open>
  In the example below \<open>sql\<close> is asked for twice and \<open>java\<close> once, so the ranking
  is the same whatever the order the set of missing skills is iterated in.
\<close>

lemma ranked_example_any_iteration:
  assumes "iterates it (missing_skills ''python'' [''python, sql'', ''python, sql'', ''java''])"
  shows "ranked_missing_skills it ''python'' [''python, sql'', ''python, sql'', ''java'']
           = [''sql'', ''java'']"
proof -
  let ?jl = "[''python, sql'', ''python, sql'', ''java'']"
  have c: "count_list (all_job_skills ?jl) ''java'' < count_list (all_job_skills ?jl) ''sql''"
    by (simp add: all_job_skills_def split_def)
  have s: "set (ranked_missing_skills it ''python'' ?jl) = {''sql'', ''java''}"
    using ranked_missing_skills_order(2) [OF assms] by (simp only: example_missing)
  have d: "distinct (ranked_missing_skills it ''python'' ?jl)"
    by (rule ranked_missing_skills_order(1) [OF assms])
  have o: "sorted_wrt (\<lambda>a b. count_list (all_job_skills ?jl) b \<le> count_list (all_job_skills ?jl) a)
             (ranked_missing_skills it ''python'' ?jl)"
    by (rule ranked_missing_skills_order(3) [OF assms])
  have n: "''sql'' \<noteq> ''java''" by simp
  show ?thesis
    by (rule two_element_order [where f = "count_list (all_job_skills ?jl)", OF d s n o c])
qed







subsection \<open>Relevance ranker\<close>

lemma tokenize_python_sql: "tokenize ''python, sql'' = [''python'', ''sql'']"
  by (simp add: tokenize_def lower_def lower_char_def upper_letters_def lower_letters_def is_word_char_def)

lemma tokenize_java: "tokenize ''java'' = [''java'']"
  by (simp add: tokenize_def lower_def lower_char_def upper_letters_def lower_letters_def is_word_char_def)

lemma tokenize_python: "tokenize ''python'' = [''python'']"
  by (simp add: tokenize_def lower_def lower_char_def upper_letters_def lower_letters_def is_word_char_def)

lemma similarity_scores_eq:
  "similarity_scores u jl =
     (if vocabulary (u # jl) = [] \<or> jl = [] then Inl ValueError
      else Inr (map (listing_score u jl) jl))"
  by (auto simp: similarity_scores_def fit_transform_def cosine_similarity_def Let_def
      listing_score_def drop_Suc)

lemma sum_squares_nonneg: "0 \<le> sum_list (map (\<lambda>x. x * x) (v :: real list))"
  by (induction v) simp_all

lemma sum_squares_scaled:
  "sum_list (map (\<lambda>x. x * x) (map (\<lambda>x. x / n) (v :: real list)))
     = sum_list (map (\<lambda>x. x * x) v) / (n * n)"
  by (induction v) (simp_all add: add_divide_distrib)

lemma l2_normalize_idem: "l2_normalize (l2_normalize v) = l2_normalize v"
proof -
  let ?S = "sum_list (map (\<lambda>x. x * x) v)"
  let ?n = "sqrt ?S"
  show ?thesis
  proof (cases "?n = 0")
    case True
    then show ?thesis by (simp add: l2_normalize_def)
  next
    case False
    have S: "0 \<le> ?S" by (rule sum_squares_nonneg)
    then have nn: "?n * ?n = ?S" by simp
    from False S have "?S \<noteq> 0" by simp
    have w: "l2_normalize v = map (\<lambda>x. x / ?n) v"
      using False by (simp add: l2_normalize_def)
    have "sum_list (map (\<lambda>x. x * x) (map (\<lambda>x. x / ?n) v)) = 1"
      using \<open>?S \<noteq> 0\<close> by (simp only: sum_squares_scaled nn) simp
    then have "l2_normalize (map (\<lambda>x. x / ?n) v) = map (\<lambda>x. x / ?n) v"
      by (simp add: l2_normalize_def)
    with w show ?thesis by simp
  qed
qed

lemma listing_score_dot:
  "listing_score u jl d = dot (tfidf_row (u # jl) u) (tfidf_row (u # jl) d)"
  by (simp add: listing_score_def tfidf_row_def l2_normalize_idem)

lemma example_docs_vocabulary:
  "vocabulary [''python, sql'', ''python, sql'', ''java'', ''python''] = [''sql'', ''java'', ''python'']"
  by (simp add: vocabulary_def tokenize_python_sql tokenize_java tokenize_python)

lemma example_docs_idf:
  "idf [''python, sql'', ''python, sql'', ''java'', ''python''] ''sql'' = ln (5 / 3) + 1"
  "idf [''python, sql'', ''python, sql'', ''java'', ''python''] ''java'' = ln (5 / 2) + 1"
  "idf [''python, sql'', ''python, sql'', ''java'', ''python''] ''python'' = ln (5 / 4) + 1"
  by (simp_all add: idf_def document_frequency_def tokenize_python_sql tokenize_java tokenize_python)

lemma idf_positive: "0 < ln (5 / 3) + (1::real)" "0 < ln (5 / 2) + (1::real)" "0 < ln (5 / 4) + (1::real)"
  by (simp_all add: add_pos_pos)

lemma sum_squares_positive: "0 < a \<Longrightarrow> 0 < (a::real)\<^sup>2 + p\<^sup>2"
  by (simp add: sum_power2_gt_zero_iff)

lemma l2_normalize_unit:
  "0 < x \<Longrightarrow> l2_normalize [0, x, 0] = [0, 1, 0]"
  "0 < x \<Longrightarrow> l2_normalize [0, 0, x] = [0, 0, 1]"
  by (simp_all add: l2_normalize_def)

lemma l2_normalize_pair:
  assumes "0 < a"
  shows "l2_normalize [a, 0, p] = [a / sqrt (a\<^sup>2 + p\<^sup>2), 0, p / sqrt (a\<^sup>2 + p\<^sup>2)]"
proof -
  have "0 < sqrt (a\<^sup>2 + p\<^sup>2)"
    using sum_squares_positive [OF assms] by (rule real_sqrt_gt_zero)
  then have N0: "sqrt (a\<^sup>2 + p\<^sup>2) \<noteq> 0"
    by linarith
  have norm: "sqrt (sum_list (map (\<lambda>x. x * x) [a, 0, p])) = sqrt (a\<^sup>2 + p\<^sup>2)"
    by (simp add: power2_eq_square)
  show ?thesis
    unfolding l2_normalize_def Let_def norm using N0 by simp
qed

lemma dot_unit_pair:
  assumes "0 < a"
  shows "dot [a / sqrt (a\<^sup>2 + p\<^sup>2), 0, p / sqrt (a\<^sup>2 + p\<^sup>2)]
             [a / sqrt (a\<^sup>2 + p\<^sup>2), 0, p / sqrt (a\<^sup>2 + p\<^sup>2)] = 1"
proof -
  let ?N = "sqrt (a\<^sup>2 + p\<^sup>2)"
  have pos: "0 < a\<^sup>2 + p\<^sup>2" by (rule sum_squares_positive [OF assms])
  then have N: "?N * ?N = a\<^sup>2 + p\<^sup>2" by simp
  have "(a / ?N) * (a / ?N) + (p / ?N) * (p / ?N) = (a * a + p * p) / (?N * ?N)"
    by (simp add: add_divide_distrib)
  also have "\<dots> = (a\<^sup>2 + p\<^sup>2) / (a\<^sup>2 + p\<^sup>2)"
    using pos by (simp add: power2_eq_square [symmetric])
  also have "\<dots> = 1"
    by (rule divide_self) (use pos in linarith)
  finally show ?thesis by (simp add: dot_def)
qed

lemma dot_with_unit:
  "dot [x, 0, z] [0, 1, 0] = 0" "dot [x, 0, z] [0, 0, 1] = z"
  by (simp_all add: dot_def)

lemma example_raw_rows:
  "map (\<lambda>t. real (count_list (tokenize ''python, sql'') t)
              * idf [''python, sql'', ''python, sql'', ''java'', ''python''] t)
       (vocabulary [''python, sql'', ''python, sql'', ''java'', ''python''])
     = [ln (5 / 3) + 1, 0, ln (5 / 4) + 1]"
  "map (\<lambda>t. real (count_list (tokenize ''java'') t)
              * idf [''python, sql'', ''python, sql'', ''java'', ''python''] t)
       (vocabulary [''python, sql'', ''python, sql'', ''java'', ''python''])
     = [0, ln (5 / 2) + 1, 0]"
  "map (\<lambda>t. real (count_list (tokenize ''python'') t)
              * idf [''python, sql'', ''python, sql'', ''java'', ''python''] t)
       (vocabulary [''python, sql'', ''python, sql'', ''java'', ''python''])
     = [0, 0, ln (5 / 4) + 1]"
  by (simp_all add: example_docs_vocabulary example_docs_idf tokenize_python_sql tokenize_java tokenize_python)

lemma example_rows:
  "tfidf_row [''python, sql'', ''python, sql'', ''java'', ''python''] ''python, sql''
     = [(ln (5 / 3) + 1) / sqrt ((ln (5 / 3) + 1)\<^sup>2 + (ln (5 / 4) + 1)\<^sup>2), 0,
        (ln (5 / 4) + 1) / sqrt ((ln (5 / 3) + 1)\<^sup>2 + (ln (5 / 4) + 1)\<^sup>2)]"
  "tfidf_row [''python, sql'', ''python, sql'', ''java'', ''python''] ''java'' = [0, 1, 0]"
  "tfidf_row [''python, sql'', ''python, sql'', ''java'', ''python''] ''python'' = [0, 0, 1]"
  by (simp_all only: tfidf_row_def example_raw_rows l2_normalize_pair [OF idf_positive(1)]
      l2_normalize_unit(1) [OF idf_positive(2)] l2_normalize_unit(2) [OF idf_positive(3)])

lemma example_scores:
  "listing_score ''python, sql'' [''python, sql'', ''java'', ''python''] ''python, sql'' = 1"
  "listing_score ''python, sql'' [''python, sql'', ''java'', ''python''] ''java'' = 0"
  "listing_score ''python, sql'' [''python, sql'', ''java'', ''python''] ''python'' = example_score"
  by (simp_all only: listing_score_dot example_rows dot_unit_pair [OF idf_positive(1)]
      dot_with_unit example_score_def)

lemma example_score_bounds: "0 < example_score \<and> example_score < 1"
proof -
  let ?a = "ln (5 / 3) + (1::real)" and ?p = "ln (5 / 4) + (1::real)"
  have a: "0 < ?a" and p: "0 < ?p" using idf_positive by simp_all
  have "?p\<^sup>2 < ?a\<^sup>2 + ?p\<^sup>2" using a by simp
  then have "sqrt (?p\<^sup>2) < sqrt (?a\<^sup>2 + ?p\<^sup>2)" by (rule real_sqrt_less_mono)
  with p have lt: "?p < sqrt (?a\<^sup>2 + ?p\<^sup>2)" by simp
  with p have "0 < sqrt (?a\<^sup>2 + ?p\<^sup>2)" by linarith
  with p lt show ?thesis by (simp add: example_score_def)
qed

lemma recommended_jobs_error:
  "vocabulary (u # jl) = [] \<or> jl = [] \<Longrightarrow> recommended_jobs u jl result \<longleftrightarrow> result = Inl ValueError"
  by (simp add: recommended_jobs_def similarity_scores_eq)

lemma attach_listing_scores:
  "attach_scores jl (map f jl)
     = map (\<lambda>i. \<lparr>row_index = i, Skills = jl ! i, Similarity_Score = f (jl ! i)\<rparr>) [0..<length jl]"
  by (simp add: attach_scores_def)

lemma recommended_jobs_rows:
  assumes "vocabulary (u # jl) \<noteq> []" "jl \<noteq> []"
  shows "recommended_jobs u jl result \<longleftrightarrow>
     (\<exists>out. result = Inr out
        \<and> sort_values_descending
             (map (\<lambda>i. \<lparr>row_index = i, Skills = jl ! i,
                        Similarity_Score = listing_score u jl (jl ! i)\<rparr>) [0..<length jl]) out)"
  using assms
  by (cases result) (simp_all add: recommended_jobs_def similarity_scores_eq attach_listing_scores)

lemma strictly_falling_unique:
  assumes "sorted_wrt (\<lambda>a b. Similarity_Score b < Similarity_Score a) rows"
    and "mset out = mset rows"
    and "sorted_wrt (\<lambda>a b. Similarity_Score b \<le> Similarity_Score a) out"
  shows "out = rows"
  using assms
proof (induction rows arbitrary: out)
  case Nil
  then show ?case by simp
next
  case (Cons x xs)
  from Cons.prems(2) obtain y ys where out: "out = y # ys"
    by (cases out) auto
  have "y = x"
  proof (rule ccontr)
    assume ne: "y \<noteq> x"
    from Cons.prems(2) have "set out = set (x # xs)" by (rule mset_eq_setD)
    with out ne have "x \<in> set ys" and "y \<in> set xs" by auto
    with Cons.prems(1,3) out have "Similarity_Score x \<le> Similarity_Score y"
      and "Similarity_Score y < Similarity_Score x" by auto
    then show False by simp
  qed
  with Cons.prems out have "mset ys = mset xs"
    and "sorted_wrt (\<lambda>a b. Similarity_Score b < Similarity_Score a) xs"
    and "sorted_wrt (\<lambda>a b. Similarity_Score b \<le> Similarity_Score a) ys"
    by simp_all
  with Cons.IH have "ys = xs" by blast
  with \<open>y = x\<close> out show ?case by simp
qed

lemma sort_values_descending_strict:
  assumes "sorted_wrt (\<lambda>a b. Similarity_Score b < Similarity_Score a) rows"
    and "mset rows' = mset rows"
  shows "sort_values_descending rows' out \<longleftrightarrow> out = rows"
proof
  assume "sort_values_descending rows' out"
  with assms show "out = rows"
    by (auto simp: sort_values_descending_def intro: strictly_falling_unique)
next
  assume "out = rows"
  moreover from assms(1) have "sorted_wrt (\<lambda>a b. Similarity_Score b \<le> Similarity_Score a) rows"
    by (rule sorted_wrt_mono_rel [rotated]) simp
  ultimately show "sort_values_descending rows' out"
    using assms(2) by (simp add: sort_values_descending_def)
qed

lemma example_ranking:
  "recommended_jobs ''python, sql'' [''python, sql'', ''java'', ''python''] result \<longleftrightarrow>
     result = Inr [\<lparr>row_index = 0, Skills = ''python, sql'', Similarity_Score = 1\<rparr>,
                   \<lparr>row_index = 2, Skills = ''python'', Similarity_Score = example_score\<rparr>,
                   \<lparr>row_index = 1, Skills = ''java'', Similarity_Score = 0\<rparr>]"
proof -
  let ?jl = "[''python, sql'', ''java'', ''python'']"
  let ?r0 = "\<lparr>row_index = 0, Skills = ''python, sql'', Similarity_Score = 1\<rparr>"
  let ?r1 = "\<lparr>row_index = 1, Skills = ''java'', Similarity_Score = 0\<rparr>"
  let ?r2 = "\<lparr>row_index = 2, Skills = ''python'', Similarity_Score = example_score\<rparr>"
  have voc: "vocabulary (''python, sql'' # ?jl) \<noteq> []"
    by (simp add: example_docs_vocabulary)
  have rows: "map (\<lambda>i. \<lparr>row_index = i, Skills = ?jl ! i,
                        Similarity_Score = listing_score ''python, sql'' ?jl (?jl ! i)\<rparr>)
                [0..<length ?jl] = [?r0, ?r1, ?r2]"
    by (simp add: upt_rec example_scores)
  have strict: "sorted_wrt (\<lambda>a b. Similarity_Score b < Similarity_Score a) [?r0, ?r2, ?r1]"
    using example_score_bounds by simp
  have perm: "mset [?r0, ?r1, ?r2] = mset [?r0, ?r2, ?r1]"
    by simp
  have "recommended_jobs ''python, sql'' ?jl result \<longleftrightarrow>
      (\<exists>out. result = Inr out \<and> sort_values_descending [?r0, ?r1, ?r2] out)"
    using recommended_jobs_rows [OF voc, of result] by (simp only: rows) simp
  also have "\<dots> \<longleftrightarrow> result = Inr [?r0, ?r2, ?r1]"
    by (simp only: sort_values_descending_strict [OF strict perm]) auto
  finally show ?thesis .
qed

text \<open>
  C2. On the corpus \<open>python, sql\<close>, \<open>java\<close>, \<open>python\<close> with the user skills
  \<open>python, sql\<close> the call has one result: the first listing with score 1, then the
  third with a score strictly between 0 and 1, then the second with score 0.
\<close>

theorem recommended_jobs_worked_example:
  "(recommended_jobs ''python, sql'' [''python, sql'', ''java'', ''python''] result \<longleftrightarrow>
      result = Inr [\<lparr>row_index = 0, Skills = ''python, sql'', Similarity_Score = 1\<rparr>,
                    \<lparr>row_index = 2, Skills = ''python'', Similarity_Score = example_score\<rparr>,
                    \<lparr>row_index = 1, Skills = ''java'', Similarity_Score = 0\<rparr>])
   \<and> 0 < example_score \<and> example_score < 1"
  using example_ranking [of result] example_score_bounds by simp

text \<open>
  C8. On an empty corpus the call does not return the corpus: it ends in the
  \<open>ValueError\<close> that \<open>fit_transform\<close> raises for an empty vocabulary or that
  \<open>cosine_similarity\<close> raises for a matrix without rows, whatever the user skills.
\<close>

theorem recommended_jobs_empty_corpus:
  "recommended_jobs user_skills [] result \<longleftrightarrow> result = Inl ValueError"
  by (rule recommended_jobs_error) simp

end
